theory Spec2Isabelle
  imports Main
begin

section \<open>Cells and boards\<close>

text \<open>
  A shallow embedding of \<^verbatim>\<open>src/src/App.tsx\<close>: the board generator
  \<^verbatim>\<open>generateBoard\<close> and the two state transitions \<^verbatim>\<open>revealCell\<close> and
  \<^verbatim>\<open>toggleFlag\<close> of the \<^verbatim>\<open>App\<close> component.

  The interface \<^verbatim>\<open>Cell\<close> becomes a record and a board (\<^verbatim>\<open>Cell[][]\<close>) a list of
  rows. \<^verbatim>\<open>generateBoard\<close> builds every cell from its own object literal and every
  row from its own array, and no statement of the program stores a cell into a second
  slot, so two distinct grid positions never share an object: assigning to a field of
  \<^verbatim>\<open>board[row][col]\<close> is the update of that one position. The copy
  \<^verbatim>\<open>[...board]\<close> shares its rows with the array it copies, which is dropped as
  soon as \<^verbatim>\<open>setBoard\<close> has installed the copy; the model therefore passes the
  board by value.
\<close>

record Cell =
  revealed :: bool
  mine :: bool
  adjacentMines :: nat
  flagged :: bool

type_synonym Board = "Cell list list"

definition BOARD_SIZE :: nat where
  "BOARD_SIZE = 10"

definition TOTAL_MINES :: int where
  "TOTAL_MINES = 15"

text \<open>
  Reading a property of \<^verbatim>\<open>undefined\<close> is the only failure the program can
  meet: \<^verbatim>\<open>board[row]\<close> is \<^verbatim>\<open>undefined\<close> when \<^verbatim>\<open>row\<close> is not an index of
  the outer array, and so is \<^verbatim>\<open>board[row][col]\<close> when \<^verbatim>\<open>col\<close> is not an index
  of the row; JavaScript then throws a \<^verbatim>\<open>TypeError\<close>.
\<close>

datatype error = TypeError

text \<open>
  \<^verbatim>\<open>board[row][col]\<close>, for integer coordinates of either sign. The component
  itself only passes the indices of its own \<^verbatim>\<open>map\<close> over the board; the functions
  accept any number.
\<close>

definition cellAt :: "Board \<Rightarrow> int \<Rightarrow> int \<Rightarrow> error + Cell" where
  "cellAt b row col =
     (if 0 \<le> row \<and> row < int (length b) then
        (if 0 \<le> col \<and> col < int (length (b ! nat row))
         then Inr (b ! nat row ! nat col)
         else Inl TypeError)
      else Inl TypeError)"

text \<open>The assignment to a field of \<^verbatim>\<open>board[row][col]\<close>, once the cell has been read.\<close>

definition setCell :: "Board \<Rightarrow> nat \<Rightarrow> nat \<Rightarrow> Cell \<Rightarrow> Board" where
  "setCell b row col c = b[row := (b ! row)[col := c] ]"

section \<open>Board generation\<close>

definition emptyCell :: Cell where
  "emptyCell = \<lparr>revealed = False, mine = False, adjacentMines = 0, flagged = False\<rparr>"

definition emptyBoard :: "nat \<Rightarrow> Board" where
  "emptyBoard sz = replicate sz (replicate sz emptyCell)"

text \<open>
  The placement loop (lines 24 to 32). The random source is the list of the pairs
  \<^verbatim>\<open>(Math.floor(Math.random() * size), Math.floor(Math.random() * size))\<close> it yields,
  in order; the loop takes one pair per iteration. \<open>None\<close> says that the loop is still
  running when the list is used up. The last argument is a ghost variable: the log of
  the cells at which line 29 was executed, in order; nothing is read from it.
\<close>

fun placeMines ::
  "int \<Rightarrow> (nat \<times> nat) list \<Rightarrow> Board \<Rightarrow> nat \<Rightarrow> (nat \<times> nat) list
     \<Rightarrow> (error + Board \<times> (nat \<times> nat) list) option" where
  "placeMines mines [] b placedMines placed =
     (if int placedMines < mines then None else Some (Inr (b, placed)))"
| "placeMines mines ((row, col) # draws) b placedMines placed =
     (if int placedMines < mines then
        (case cellAt b (int row) (int col) of
           Inl e \<Rightarrow> Some (Inl e)
         | Inr c \<Rightarrow>
             if \<not> mine c
             then placeMines mines draws (setCell b row col (c\<lparr>mine := True\<rparr>))
                    (placedMines + 1) (placed @ [(row, col)])
             else placeMines mines draws b placedMines placed)
      else Some (Inr (b, placed)))"

text \<open>The eight offsets of lines 39 to 43, in the source's order.\<close>

definition adjacentCells :: "(int \<times> int) list" where
  "adjacentCells =
     [(-1, -1), (-1, 0), (-1, 1),
      (0, -1), (0, 1),
      (1, -1), (1, 0), (1, 1)]"

text \<open>
  Lines 45 to 54: the \<^verbatim>\<open>forEach\<close> over the offsets, with its bounds check. The grid is
  \<open>sz \<times> sz\<close> here, so a position that passes the check is a cell of the grid.
\<close>

definition countAdjacent :: "nat \<Rightarrow> Board \<Rightarrow> nat \<Rightarrow> nat \<Rightarrow> nat" where
  "countAdjacent sz b row col =
     fold (\<lambda>(dx, dy) adjacentMinesCount.
             let newRow = int row + dx; newCol = int col + dy in
             if newRow \<ge> 0 \<and> newRow < int sz \<and> newCol \<ge> 0 \<and> newCol < int sz then
               (if mine (b ! nat newRow ! nat newCol)
                then adjacentMinesCount + 1 else adjacentMinesCount)
             else adjacentMinesCount)
          adjacentCells 0"

text \<open>The body of the inner loop (lines 37 to 56) for one cell.\<close>

definition calcCell :: "nat \<Rightarrow> Board \<Rightarrow> nat \<Rightarrow> nat \<Rightarrow> Board" where
  "calcCell sz b row col =
     (if mine (b ! row ! col) then b
      else setCell b row col ((b ! row ! col)\<lparr>adjacentMines := countAdjacent sz b row col\<rparr>))"

text \<open>The two nested \<^verbatim>\<open>for\<close> statements of lines 35 and 36.\<close>

definition calcAdjacentMines :: "nat \<Rightarrow> Board \<Rightarrow> Board" where
  "calcAdjacentMines sz b =
     fold (\<lambda>row b1. fold (\<lambda>col b2. calcCell sz b2 row col) [0..<sz] b1) [0..<sz] b"

definition generateBoard :: "nat \<Rightarrow> int \<Rightarrow> (nat \<times> nat) list \<Rightarrow> (error + Board) option" where
  "generateBoard sz mines draws =
     (case placeMines mines draws (emptyBoard sz) 0 [] of
        None \<Rightarrow> None
      | Some (Inl e) \<Rightarrow> Some (Inl e)
      | Some (Inr (b, placed)) \<Rightarrow> Some (Inr (calcAdjacentMines sz b)))"

section \<open>The game state\<close>

text \<open>The four \<^verbatim>\<open>useState\<close> values of the component.\<close>

record GameState =
  board :: Board
  gameOver :: bool
  gameWon :: bool
  flags :: int

text \<open>The state of a new game on a generated board (lines 64 to 67, and \<^verbatim>\<open>resetGame\<close>).\<close>

definition newGame :: "Board \<Rightarrow> GameState" where
  "newGame b = \<lparr>board = b, gameOver = False, gameWon = False, flags = TOTAL_MINES\<rparr>"

definition initialState :: "(nat \<times> nat) list \<Rightarrow> (error + GameState) option" where
  "initialState draws =
     (case generateBoard BOARD_SIZE TOTAL_MINES draws of
        None \<Rightarrow> None
      | Some (Inl e) \<Rightarrow> Some (Inl e)
      | Some (Inr b) \<Rightarrow> Some (Inr (newGame b)))"

text \<open>
  \<^verbatim>\<open>revealCell\<close> (lines 69 to 86). A \<^verbatim>\<open>return\<close> before \<^verbatim>\<open>setBoard\<close> leaves the
  state as it is; a \<^verbatim>\<open>TypeError\<close> is thrown by the test of line 71, before anything
  is written.
\<close>

definition revealCell :: "GameState \<Rightarrow> int \<Rightarrow> int \<Rightarrow> error + GameState" where
  "revealCell s row col =
     (if gameOver s \<or> gameWon s then Inr s
      else case cellAt (board s) row col of
        Inl e \<Rightarrow> Inl e
      | Inr c \<Rightarrow>
          if revealed c \<or> flagged c then Inr s
          else
            let newBoard = setCell (board s) (nat row) (nat col) (c\<lparr>revealed := True\<rparr>) in
            if mine c then Inr (s\<lparr>board := newBoard, gameOver := True\<rparr>)
            else if list_all (\<lambda>r. list_all (\<lambda>cell. revealed cell \<or> mine cell) r) newBoard
            then Inr (s\<lparr>board := newBoard, gameWon := True\<rparr>)
            else Inr (s\<lparr>board := newBoard\<rparr>))"

text \<open>\<^verbatim>\<open>toggleFlag\<close> (lines 88 to 96).\<close>

definition toggleFlag :: "GameState \<Rightarrow> int \<Rightarrow> int \<Rightarrow> error + GameState" where
  "toggleFlag s row col =
     (if gameOver s \<or> gameWon s then Inr s
      else case cellAt (board s) row col of
        Inl e \<Rightarrow> Inl e
      | Inr c \<Rightarrow>
          if revealed c then Inr s
          else
            let c' = c\<lparr>flagged := \<not> flagged c\<rparr>;
                newBoard = setCell (board s) (nat row) (nat col) c'
            in Inr (s\<lparr>board := newBoard,
                      flags := (if flagged c' then flags s - 1 else flags s + 1)\<rparr>))"

text \<open>
  Sequences of player actions. An action that throws has written nothing, and the
  component keeps its state: the next action starts from the same state.
\<close>

datatype action = Reveal int int | ToggleFlag int int

fun step :: "GameState \<Rightarrow> action \<Rightarrow> error + GameState" where
  "step s (Reveal row col) = revealCell s row col"
| "step s (ToggleFlag row col) = toggleFlag s row col"

fun run :: "GameState \<Rightarrow> action list \<Rightarrow> GameState" where
  "run s [] = s"
| "run s (a # as) = (case step s a of Inl e \<Rightarrow> run s as | Inr s' \<Rightarrow> run s' as)"

section \<open>Notions used to state the properties\<close>

text \<open>The state \<^verbatim>\<open>Playing\<close>: neither terminal flag is set.\<close>

definition playing :: "GameState \<Rightarrow> bool" where
  "playing s \<longleftrightarrow> \<not> gameOver s \<and> \<not> gameWon s"

text \<open>A property of every cell of a board, by position.\<close>

definition everyCell :: "(Cell \<Rightarrow> bool) \<Rightarrow> Board \<Rightarrow> bool" where
  "everyCell P b \<longleftrightarrow> (\<forall>r < length b. \<forall>k < length (b ! r). P (b ! r ! k))"

text \<open>A square grid of side \<open>sz\<close>.\<close>

definition isGrid :: "nat \<Rightarrow> Board \<Rightarrow> bool" where
  "isGrid sz b \<longleftrightarrow> length b = sz \<and> list_all (\<lambda>r. length r = sz) b"

text \<open>The number of cells that are mines.\<close>

definition countMines :: "Board \<Rightarrow> nat" where
  "countMines b = length (filter mine (concat b))"

text \<open>
  What \<^verbatim>\<open>Math.floor(Math.random() * size)\<close> can yield: an index below \<open>size\<close>,
  and \<open>0\<close> when \<open>size\<close> is \<open>0\<close>.
\<close>

definition validDraws :: "nat \<Rightarrow> (nat \<times> nat) list \<Rightarrow> bool" where
  "validDraws sz draws \<longleftrightarrow> (\<forall>(row, col) \<in> set draws. row < max 1 sz \<and> col < max 1 sz)"

text \<open>
  The cells of the Moore neighbourhood of \<open>(row, col)\<close> that lie on the grid and are
  mines: the positions of the grid, other than \<open>(row, col)\<close> itself, whose row and
  column each differ by at most one.
\<close>

definition mooreMines :: "nat \<Rightarrow> Board \<Rightarrow> nat \<Rightarrow> nat \<Rightarrow> (nat \<times> nat) list" where
  "mooreMines sz b row col =
     filter (\<lambda>(r, k). (r, k) \<noteq> (row, col)
               \<and> r \<le> row + 1 \<and> row \<le> r + 1 \<and> k \<le> col + 1 \<and> col \<le> k + 1
               \<and> mine (b ! r ! k))
       (List.product [0..<sz] [0..<sz])"

text \<open>The test the \<^verbatim>\<open>forEach\<close> of \<open>countAdjacent\<close> makes for one offset.\<close>

definition mineAtOffset :: "nat \<Rightarrow> Board \<Rightarrow> nat \<Rightarrow> nat \<Rightarrow> int \<times> int \<Rightarrow> bool" where
  "mineAtOffset sz b row col = (\<lambda>(dx, dy).
     0 \<le> int row + dx \<and> int row + dx < int sz \<and> 0 \<le> int col + dy \<and> int col + dy < int sz
     \<and> mine (b ! nat (int row + dx) ! nat (int col + dy)))"

text \<open>
  The invariant of the placement loop: the board is a grid of untouched cells, the
  counter is the number of mines, and the mines are the logged cells, each logged once.
\<close>

definition placeInv :: "nat \<Rightarrow> Board \<Rightarrow> nat \<Rightarrow> (nat \<times> nat) list \<Rightarrow> bool" where
  "placeInv sz b placedMines placed \<longleftrightarrow>
     isGrid sz b
     \<and> everyCell (\<lambda>c. \<not> revealed c \<and> \<not> flagged c \<and> adjacentMines c = 0) b
     \<and> distinct placed \<and> length placed = placedMines
     \<and> set placed \<subseteq> {..<sz} \<times> {..<sz}
     \<and> (\<forall>r < sz. \<forall>k < sz. mine (b ! r ! k) \<longleftrightarrow> (r, k) \<in> set placed)
     \<and> countMines b = placedMines"

text \<open>
  The invariant of the adjacency pass: \<open>b'\<close> is the board \<open>b\<close> the pass started
  from, with the count written into the cells of \<open>ps\<close> that are not mines.
\<close>

definition adjacentDone :: "nat \<Rightarrow> Board \<Rightarrow> (nat \<times> nat) set \<Rightarrow> Board \<Rightarrow> bool" where
  "adjacentDone sz b ps b' \<longleftrightarrow>
     isGrid sz b' \<and>
     (\<forall>r < sz. \<forall>k < sz. b' ! r ! k =
        (if (r, k) \<in> ps \<and> \<not> mine (b ! r ! k)
         then (b ! r ! k)\<lparr>adjacentMines := countAdjacent sz b r k\<rparr> else b ! r ! k))"

text \<open>The invariant of the game: no revealed mine unless the game is lost.\<close>

definition noRevealedMine :: "Board \<Rightarrow> bool" where
  "noRevealedMine b = everyCell (\<lambda>c. \<not> (mine c \<and> revealed c)) b"

definition gameInv :: "GameState \<Rightarrow> bool" where
  "gameInv s \<longleftrightarrow> \<not> (gameOver s \<and> gameWon s) \<and> (\<not> gameOver s \<longrightarrow> noRevealedMine (board s))"

text \<open>
  Example boards: the \<open>2 \<times> 2\<close> board with one mine at \<open>(0, 0)\<close>, and the one with
  mines at \<open>(0, 0)\<close> and \<open>(1, 1)\<close>.
\<close>

definition board2 :: Board where
  "board2 = [ [emptyCell\<lparr>mine := True\<rparr>, emptyCell\<lparr>adjacentMines := 1\<rparr>],
             [emptyCell\<lparr>adjacentMines := 1\<rparr>, emptyCell\<lparr>adjacentMines := 1\<rparr>] ]"

definition boardDiag :: Board where
  "boardDiag = [ [emptyCell\<lparr>mine := True\<rparr>, emptyCell\<lparr>adjacentMines := 2\<rparr>],
                [emptyCell\<lparr>adjacentMines := 2\<rparr>, emptyCell\<lparr>mine := True\<rparr>] ]"

text \<open>
  Example states on \<open>board2\<close>: a game that has just begun, the same game once
  \<open>(0, 1)\<close> and \<open>(1, 0)\<close> are revealed, the game won by revealing \<open>(1, 1)\<close> too,
  the game with a flag on \<open>(0, 1)\<close> instead, and the game lost by revealing the mine
  first.
\<close>

definition game2 :: GameState where
  "game2 = \<lparr>board = board2, gameOver = False, gameWon = False, flags = 1\<rparr>"

definition game2Last :: GameState where
  "game2Last =
     \<lparr>board = [ [emptyCell\<lparr>mine := True\<rparr>, emptyCell\<lparr>adjacentMines := 1, revealed := True\<rparr>],
               [emptyCell\<lparr>adjacentMines := 1, revealed := True\<rparr>, emptyCell\<lparr>adjacentMines := 1\<rparr>] ],
      gameOver = False, gameWon = False, flags = 1\<rparr>"

definition game2Won :: GameState where
  "game2Won =
     \<lparr>board = [ [emptyCell\<lparr>mine := True\<rparr>, emptyCell\<lparr>adjacentMines := 1, revealed := True\<rparr>],
               [emptyCell\<lparr>adjacentMines := 1, revealed := True\<rparr>,
                emptyCell\<lparr>adjacentMines := 1, revealed := True\<rparr>] ],
      gameOver = False, gameWon = True, flags = 1\<rparr>"

definition game2Flagged :: GameState where
  "game2Flagged =
     \<lparr>board = [ [emptyCell\<lparr>mine := True\<rparr>, emptyCell\<lparr>adjacentMines := 1, flagged := True\<rparr>],
               [emptyCell\<lparr>adjacentMines := 1\<rparr>, emptyCell\<lparr>adjacentMines := 1\<rparr>] ],
      gameOver = False, gameWon = False, flags = 0\<rparr>"

definition game2Lost :: GameState where
  "game2Lost =
     \<lparr>board = [ [emptyCell\<lparr>mine := True, revealed := True\<rparr>, emptyCell\<lparr>adjacentMines := 1\<rparr>],
               [emptyCell\<lparr>adjacentMines := 1\<rparr>, emptyCell\<lparr>adjacentMines := 1\<rparr>] ],
      gameOver = True, gameWon = False, flags = 1\<rparr>"

text \<open>A game on the \<open>2 \<times> 2\<close> board without mines: every count is \<open>0\<close>.\<close>

definition game0 :: GameState where
  "game0 = \<lparr>board = emptyBoard 2, gameOver = False, gameWon = False, flags = 0\<rparr>"

text \<open>
  A game of the component itself: the random source yields the first fifteen cells of
  the \<open>10 \<times> 10\<close> grid in reading order, and the player reveals the other
  eighty-five.
\<close>

definition demoDraws :: "(nat \<times> nat) list" where
  "demoDraws = map (\<lambda>i. (i div 10, i mod 10)) [0..<15]"

definition demoActs :: "action list" where
  "demoActs = map (\<lambda>i. Reveal (int (i div 10)) (int (i mod 10))) [15..<100]"

section \<open>Reading and writing cells\<close>

lemma isGrid_iff: "isGrid sz b \<longleftrightarrow> length b = sz \<and> (\<forall>r < sz. length (b ! r) = sz)"
  by (auto simp: isGrid_def list_all_length)

lemma cellAt_Inr_iff:
  "cellAt b row col = Inr c \<longleftrightarrow>
     0 \<le> row \<and> nat row < length b \<and> 0 \<le> col \<and> nat col < length (b ! nat row)
       \<and> c = b ! nat row ! nat col"
  by (auto simp: cellAt_def)

lemma cellAt_Inl_iff:
  "cellAt b row col = Inl e \<longleftrightarrow>
     \<not> (0 \<le> row \<and> nat row < length b \<and> 0 \<le> col \<and> nat col < length (b ! nat row))"
  by (cases e) (auto simp: cellAt_def)

lemma length_setCell [simp]: "length (setCell b r k c) = length b"
  by (simp add: setCell_def)

lemma length_setCell_row [simp]: "length (setCell b r k c ! i) = length (b ! i)"
  by (cases "r < length b"; cases "i = r") (simp_all add: setCell_def list_update_beyond)

lemma nth_setCell:
  "i < length b \<Longrightarrow> j < length (b ! i) \<Longrightarrow>
     setCell b r k c ! i ! j = (if i = r \<and> j = k then c else b ! i ! j)"
  by (cases "i = r") (simp_all add: setCell_def nth_list_update)

lemma cellAt_setCell:
  assumes "cellAt b row col = Inr c"
  shows "cellAt (setCell b (nat row) (nat col) c') r k =
           (if r = row \<and> k = col then Inr c' else cellAt b r k)"
proof -
  from assms have rc: "0 \<le> row" "nat row < length b" "0 \<le> col" "nat col < length (b ! nat row)"
    by (simp_all add: cellAt_Inr_iff)
  show ?thesis
  proof (cases "0 \<le> r \<and> nat r < length b \<and> 0 \<le> k \<and> nat k < length (b ! nat r)")
    case True
    with rc show ?thesis
      by (auto simp: cellAt_def nth_setCell)
  next
    case False
    with rc show ?thesis
      by (auto simp: cellAt_def)
  qed
qed

section \<open>The transitions, case by case\<close>

lemma list_all_everyCell: "list_all (\<lambda>r. list_all P r) b \<longleftrightarrow> everyCell P b"
  by (simp add: everyCell_def list_all_length)

lemma revealCell_playing:
  assumes "playing s" and "cellAt (board s) row col = Inr c"
    and "\<not> revealed c" and "\<not> flagged c"
  shows "revealCell s row col =
           Inr (s\<lparr>board := setCell (board s) (nat row) (nat col) (c\<lparr>revealed := True\<rparr>),
                  gameOver := mine c,
                  gameWon := \<not> mine c \<and> everyCell (\<lambda>cell. revealed cell \<or> mine cell)
                     (setCell (board s) (nat row) (nat col) (c\<lparr>revealed := True\<rparr>))\<rparr>)"
  using assms by (simp add: revealCell_def playing_def Let_def list_all_everyCell)

lemma revealCell_guard:
  "gameOver s \<or> gameWon s \<or> (\<exists>c. cellAt (board s) row col = Inr c \<and> (revealed c \<or> flagged c))
     \<Longrightarrow> revealCell s row col = Inr s"
  by (auto simp: revealCell_def)

lemma toggleFlag_guard:
  "gameOver s \<or> gameWon s \<or> (\<exists>c. cellAt (board s) row col = Inr c \<and> revealed c)
     \<Longrightarrow> toggleFlag s row col = Inr s"
  by (auto simp: toggleFlag_def)

lemma toggleFlag_playing:
  assumes "playing s" and "cellAt (board s) row col = Inr c" and "\<not> revealed c"
  shows "toggleFlag s row col =
           Inr (s\<lparr>board := setCell (board s) (nat row) (nat col) (c\<lparr>flagged := \<not> flagged c\<rparr>),
                  flags := (if flagged c then flags s + 1 else flags s - 1)\<rparr>)"
  using assms by (simp add: toggleFlag_def playing_def Let_def)

lemma revealCell_cases:
  assumes "revealCell s row col = Inr s'"
  obtains (guard) "s' = s"
  | (reveal) c where "playing s" "cellAt (board s) row col = Inr c" "\<not> revealed c" "\<not> flagged c"
      "s' = s\<lparr>board := setCell (board s) (nat row) (nat col) (c\<lparr>revealed := True\<rparr>),
                  gameOver := mine c,
                  gameWon := \<not> mine c \<and> everyCell (\<lambda>cell. revealed cell \<or> mine cell)
                     (setCell (board s) (nat row) (nat col) (c\<lparr>revealed := True\<rparr>))\<rparr>"
proof (cases "playing s")
  case False
  then have "revealCell s row col = Inr s"
    by (auto simp: revealCell_def playing_def)
  with assms guard show ?thesis by simp
next
  case True
  show ?thesis
  proof (cases "cellAt (board s) row col")
    case (Inl e)
    with True assms show ?thesis by (simp add: revealCell_def playing_def)
  next
    case (Inr c)
    show ?thesis
    proof (cases "revealed c \<or> flagged c")
      case True
      with Inr have "revealCell s row col = Inr s" by (auto simp: revealCell_guard)
      with assms guard show ?thesis by simp
    next
      case False
      with \<open>playing s\<close> Inr assms reveal [of c] show ?thesis
        by (simp add: revealCell_playing)
    qed
  qed
qed

lemma toggleFlag_cases:
  assumes "toggleFlag s row col = Inr s'"
  obtains (guard) "s' = s"
  | (toggle) c where "playing s" "cellAt (board s) row col = Inr c" "\<not> revealed c"
      "s' = s\<lparr>board := setCell (board s) (nat row) (nat col) (c\<lparr>flagged := \<not> flagged c\<rparr>),
                  flags := (if flagged c then flags s + 1 else flags s - 1)\<rparr>"
proof (cases "playing s")
  case False
  then have "toggleFlag s row col = Inr s"
    by (auto simp: toggleFlag_def playing_def)
  with assms guard show ?thesis by simp
next
  case True
  show ?thesis
  proof (cases "cellAt (board s) row col")
    case (Inl e)
    with True assms show ?thesis by (simp add: toggleFlag_def playing_def)
  next
    case (Inr c)
    show ?thesis
    proof (cases "revealed c")
      case True
      with Inr have "toggleFlag s row col = Inr s" by (auto simp: toggleFlag_guard)
      with assms guard show ?thesis by simp
    next
      case False
      with \<open>playing s\<close> Inr assms toggle [of c] show ?thesis
        by (simp add: toggleFlag_playing)
    qed
  qed
qed

section \<open>The invariant of the game\<close>

lemma everyCell_setCell:
  "everyCell P b \<Longrightarrow> P c \<Longrightarrow> everyCell P (setCell b r k c)"
  by (simp add: everyCell_def nth_setCell)

lemma everyCell_cellAt: "everyCell P b \<Longrightarrow> cellAt b row col = Inr c \<Longrightarrow> P c"
  by (simp add: everyCell_def cellAt_Inr_iff)

lemma gameInv_revealCell:
  assumes "gameInv s" and "revealCell s row col = Inr s'"
  shows "gameInv s'"
  using assms(2)
proof (cases rule: revealCell_cases)
  case guard
  with assms show ?thesis by simp
next
  case (reveal c)
  from reveal(1) assms(1) have "noRevealedMine (board s)"
    by (simp add: gameInv_def playing_def)
  then have "\<not> mine c \<Longrightarrow>
      noRevealedMine (setCell (board s) (nat row) (nat col) (c\<lparr>revealed := True\<rparr>))"
    unfolding noRevealedMine_def by (rule everyCell_setCell) simp
  with reveal(5) show ?thesis
    by (auto simp: gameInv_def)
qed

lemma gameInv_toggleFlag:
  assumes "gameInv s" and "toggleFlag s row col = Inr s'"
  shows "gameInv s'"
  using assms(2)
proof (cases rule: toggleFlag_cases)
  case guard
  with assms show ?thesis by simp
next
  case (toggle c)
  from toggle(1) assms(1) have nr: "noRevealedMine (board s)"
    by (simp add: gameInv_def playing_def)
  from everyCell_cellAt [OF nr [unfolded noRevealedMine_def] toggle(2)]
  have "\<not> (mine c \<and> revealed c)" .
  with nr have "noRevealedMine (setCell (board s) (nat row) (nat col) (c\<lparr>flagged := \<not> flagged c\<rparr>))"
    unfolding noRevealedMine_def by (intro everyCell_setCell) simp_all
  with toggle(1,4) show ?thesis
    by (simp add: gameInv_def playing_def)
qed

lemma gameInv_step: "gameInv s \<Longrightarrow> step s a = Inr s' \<Longrightarrow> gameInv s'"
  by (cases a) (auto intro: gameInv_revealCell gameInv_toggleFlag)

lemma gameInv_run: "gameInv s \<Longrightarrow> gameInv (run s acts)"
proof (induction acts arbitrary: s)
  case Nil
  then show ?case by simp
next
  case (Cons a acts)
  show ?case
  proof (cases "step s a")
    case (Inl e)
    with Cons show ?thesis by simp
  next
    case (Inr s')
    with Cons.prems have "gameInv s'" by (rule_tac gameInv_step)
    with Cons.IH Inr show ?thesis by simp
  qed
qed

lemma gameInv_newGame: "everyCell (\<lambda>c. \<not> revealed c) b \<Longrightarrow> gameInv (newGame b)"
  by (simp add: gameInv_def newGame_def noRevealedMine_def everyCell_def)

section \<open>The placement loop\<close>

lemma length_filter_update:
  "i < length xs \<Longrightarrow> \<not> P (xs ! i) \<Longrightarrow> P x \<Longrightarrow>
     length (filter P (xs[i := x])) = Suc (length (filter P xs))"
proof (induction xs arbitrary: i)
  case Nil
  then show ?case by simp
next
  case (Cons y ys)
  then show ?case by (cases i) auto
qed

lemma countMines_sum: "countMines b = sum_list (map (\<lambda>r. length (filter mine r)) b)"
  by (induction b) (simp_all add: countMines_def)

lemma countMines_setCell:
  assumes "r < length b" and "k < length (b ! r)" and "\<not> mine (b ! r ! k)" and "mine c"
  shows "countMines (setCell b r k c) = Suc (countMines b)"
proof -
  have "countMines (setCell b r k c)
          = sum_list ((map (\<lambda>r. length (filter mine r)) b)[r := length (filter mine ((b ! r)[k := c]))])"
    by (simp add: countMines_sum setCell_def map_update)
  also have "\<dots> = sum_list (map (\<lambda>r. length (filter mine r)) b)
                     + length (filter mine ((b ! r)[k := c])) - length (filter mine (b ! r))"
    using assms(1) by (simp add: sum_list_update)
  also have "\<dots> = Suc (sum_list (map (\<lambda>r. length (filter mine r)) b))"
    using assms by (simp add: length_filter_update)
  finally show ?thesis by (simp add: countMines_sum)
qed

lemma isGrid_setCell: "isGrid sz b \<Longrightarrow> isGrid sz (setCell b r k c)"
  by (simp add: isGrid_iff)

lemma isGrid_emptyBoard: "isGrid sz (emptyBoard sz)"
  by (simp add: isGrid_iff emptyBoard_def)

lemma cellAt_grid:
  "isGrid sz b \<Longrightarrow> r < sz \<Longrightarrow> k < sz \<Longrightarrow> cellAt b (int r) (int k) = Inr (b ! r ! k)"
  by (simp add: isGrid_iff cellAt_def)

lemma cellAt_grid_Inr:
  "isGrid sz b \<Longrightarrow> cellAt b (int r) (int k) = Inr c \<Longrightarrow> r < sz \<and> k < sz \<and> c = b ! r ! k"
  by (auto simp: isGrid_iff cellAt_Inr_iff)

lemma countMines_emptyBoard: "countMines (emptyBoard sz) = 0"
  by (simp add: countMines_sum emptyBoard_def emptyCell_def)

lemma placeInv_emptyBoard: "placeInv sz (emptyBoard sz) 0 []"
  by (simp add: placeInv_def isGrid_emptyBoard countMines_emptyBoard)
     (simp add: emptyBoard_def everyCell_def emptyCell_def)

lemma placeInv_step:
  assumes "placeInv sz b n placed" and "cellAt b (int row) (int col) = Inr c" and "\<not> mine c"
  shows "placeInv sz (setCell b row col (c\<lparr>mine := True\<rparr>)) (n + 1) (placed @ [(row, col)])"
proof -
  from assms(1) have g: "isGrid sz b" by (simp add: placeInv_def)
  from cellAt_grid_Inr [OF g assms(2)] have rc: "row < sz" "col < sz" "c = b ! row ! col"
    by simp_all
  from g rc have len: "row < length b" "col < length (b ! row)"
    by (simp_all add: isGrid_iff)
  from assms(1) rc assms(3) have notin: "(row, col) \<notin> set placed"
    by (auto simp: placeInv_def)
  from assms(1) have ec: "everyCell (\<lambda>c. \<not> revealed c \<and> \<not> flagged c \<and> adjacentMines c = 0) b"
    by (simp add: placeInv_def)
  from everyCell_cellAt [OF ec assms(2)]
  have "everyCell (\<lambda>c. \<not> revealed c \<and> \<not> flagged c \<and> adjacentMines c = 0)
          (setCell b row col (c\<lparr>mine := True\<rparr>))"
    by (intro everyCell_setCell ec) simp
  moreover from len rc assms(3) have "countMines (setCell b row col (c\<lparr>mine := True\<rparr>)) = Suc (countMines b)"
    by (intro countMines_setCell) simp_all
  moreover have "\<forall>r < sz. \<forall>k < sz.
      mine (setCell b row col (c\<lparr>mine := True\<rparr>) ! r ! k) \<longleftrightarrow> (r, k) \<in> set (placed @ [(row, col)])"
    using assms(1) g by (auto simp: placeInv_def isGrid_iff nth_setCell)
  ultimately show ?thesis
    using assms(1) rc notin by (simp add: placeInv_def isGrid_setCell)
qed

lemma placeInv_bound:
  assumes "placeInv sz b n placed"
  shows "n \<le> sz * sz"
proof -
  from assms have "card (set placed) \<le> card ({..<sz} \<times> {..<sz})"
    by (intro card_mono) (simp_all add: placeInv_def)
  with assms show ?thesis
    by (simp add: placeInv_def distinct_card)
qed

lemma placeMines_result:
  assumes "placeInv sz b n placed"
    and "placeMines mines draws b n placed = Some (Inr (b', placed'))"
  shows "placeInv sz b' (length placed') placed' \<and> int (length placed') = max mines (int n)"
  using assms
proof (induction draws arbitrary: b n placed)
  case Nil
  then show ?case
    by (auto simp: placeInv_def split: if_splits)
next
  case (Cons d draws)
  obtain row col where d: "d = (row, col)" by (cases d)
  show ?case
  proof (cases "int n < mines")
    case False
    with Cons.prems d show ?thesis
      by (auto simp: placeInv_def)
  next
    case True
    show ?thesis
    proof (cases "cellAt b (int row) (int col)")
      case (Inl e)
      with True Cons.prems d show ?thesis by simp
    next
      case (Inr c)
      show ?thesis
      proof (cases "mine c")
        case True
        with \<open>int n < mines\<close> Inr Cons.prems d
        have "placeMines mines draws b n placed = Some (Inr (b', placed'))" by simp
        from Cons.IH [OF Cons.prems(1) this] \<open>int n < mines\<close> show ?thesis by simp
      next
        case False
        with \<open>int n < mines\<close> Inr Cons.prems d
        have "placeMines mines draws (setCell b row col (c\<lparr>mine := True\<rparr>)) (n + 1)
                (placed @ [(row, col)]) = Some (Inr (b', placed'))" by simp
        from Cons.IH [OF placeInv_step [OF Cons.prems(1) Inr False] this] \<open>int n < mines\<close>
        show ?thesis by simp
      qed
    qed
  qed
qed

lemma validDraws_Cons:
  "validDraws sz ((row, col) # draws) \<longleftrightarrow>
     row < max 1 sz \<and> col < max 1 sz \<and> validDraws sz draws"
  by (simp add: validDraws_def)

lemma placeMines_returns:
  assumes "placeInv sz b n placed" and "0 < sz" and "validDraws sz draws"
    and "mines \<le> int n + int (card (set draws - set placed))"
  shows "\<exists>b' placed'. placeMines mines draws b n placed = Some (Inr (b', placed'))"
  using assms
proof (induction draws arbitrary: b n placed)
  case Nil
  then show ?case by simp
next
  case (Cons d draws)
  obtain row col where d: "d = (row, col)" by (cases d)
  show ?case
  proof (cases "int n < mines")
    case False
    with d show ?thesis by simp
  next
    case True
    from Cons.prems(1) have g: "isGrid sz b" by (simp add: placeInv_def)
    from Cons.prems(2,3) d have rc: "row < sz" "col < sz" and v: "validDraws sz draws"
      by (simp_all add: validDraws_Cons)
    from cellAt_grid [OF g rc] have at: "cellAt b (int row) (int col) = Inr (b ! row ! col)" .
    show ?thesis
    proof (cases "mine (b ! row ! col)")
      case True
      with Cons.prems(1) rc have "(row, col) \<in> set placed" by (simp add: placeInv_def)
      then have "set (d # draws) - set placed = set draws - set placed"
        using d by auto
      with Cons.prems(4) have "mines \<le> int n + int (card (set draws - set placed))" by simp
      from Cons.IH [OF Cons.prems(1,2) v this] \<open>int n < mines\<close> at True d
      show ?thesis by simp
    next
      case False
      with Cons.prems(1) rc have notin: "(row, col) \<notin> set placed" by (simp add: placeInv_def)
      have "set (d # draws) - set placed
              = insert (row, col) (set draws - set (placed @ [(row, col)]))"
        using d notin by auto
      then have "card (set (d # draws) - set placed)
              = Suc (card (set draws - set (placed @ [(row, col)])))"
        by simp
      with Cons.prems(4)
      have "mines \<le> int (n + 1) + int (card (set draws - set (placed @ [(row, col)])))" by simp
      from Cons.IH [OF placeInv_step [OF Cons.prems(1) at False] Cons.prems(2) v this]
        \<open>int n < mines\<close> at False d
      show ?thesis by simp
    qed
  qed
qed

lemma placeMines_no_error:
  assumes "placeInv sz b n placed" and "0 < sz" and "validDraws sz draws"
  shows "placeMines mines draws b n placed \<noteq> Some (Inl e)"
  using assms
proof (induction draws arbitrary: b n placed)
  case Nil
  then show ?case by simp
next
  case (Cons d draws)
  obtain row col where d: "d = (row, col)" by (cases d)
  from Cons.prems(1) have g: "isGrid sz b" by (simp add: placeInv_def)
  from Cons.prems(2,3) d have rc: "row < sz" "col < sz" and v: "validDraws sz draws"
    by (simp_all add: validDraws_Cons)
  from cellAt_grid [OF g rc] have at: "cellAt b (int row) (int col) = Inr (b ! row ! col)" .
  show ?case
  proof (cases "mine (b ! row ! col)")
    case True
    from Cons.IH [OF Cons.prems(1,2) v] at True d show ?thesis by simp
  next
    case False
    from Cons.IH [OF placeInv_step [OF Cons.prems(1) at False] Cons.prems(2) v] at False d
    show ?thesis by simp
  qed
qed

lemma placeMines_diverges:
  assumes "placeInv sz b n placed" and "0 < sz" and "validDraws sz draws"
    and "int (sz * sz) < mines"
  shows "placeMines mines draws b n placed = None"
  using assms
proof (induction draws arbitrary: b n placed)
  case Nil
  from placeInv_bound [OF Nil(1)] have "int n \<le> int (sz * sz)" by (simp only: of_nat_le_iff)
  with Nil(4) show ?case by simp
next
  case (Cons d draws)
  obtain row col where d: "d = (row, col)" by (cases d)
  from placeInv_bound [OF Cons.prems(1)] have "int n \<le> int (sz * sz)" by (simp only: of_nat_le_iff)
  with Cons.prems(4) have lt: "int n < mines" by linarith
  from Cons.prems(1) have g: "isGrid sz b" by (simp add: placeInv_def)
  from Cons.prems(2,3) d have rc: "row < sz" "col < sz" and v: "validDraws sz draws"
    by (simp_all add: validDraws_Cons)
  from cellAt_grid [OF g rc] have at: "cellAt b (int row) (int col) = Inr (b ! row ! col)" .
  show ?case
  proof (cases "mine (b ! row ! col)")
    case True
    from Cons.IH [OF Cons.prems(1,2) v Cons.prems(4)] at True d lt show ?thesis by simp
  next
    case False
    from Cons.IH [OF placeInv_step [OF Cons.prems(1) at False] Cons.prems(2) v Cons.prems(4)]
      at False d lt
    show ?thesis by simp
  qed
qed

section \<open>The adjacency pass\<close>

lemma fold_count: "fold (\<lambda>x n. if P x then n + 1 else n) xs k = k + length (filter P xs)"
  by (induction xs arbitrary: k) simp_all

lemma countAdjacent_filter:
  "countAdjacent sz b row col = length (filter (mineAtOffset sz b row col) adjacentCells)"
proof -
  let ?F = "\<lambda>(dx, dy) adjacentMinesCount.
             let newRow = int row + dx; newCol = int col + dy in
             if newRow \<ge> 0 \<and> newRow < int sz \<and> newCol \<ge> 0 \<and> newCol < int sz then
               (if mine (b ! nat newRow ! nat newCol)
                then adjacentMinesCount + 1 else adjacentMinesCount)
             else adjacentMinesCount"
  let ?G = "\<lambda>x n. if mineAtOffset sz b row col x then n + 1 else n"
  have "?F = ?G"
    by (auto simp: fun_eq_iff mineAtOffset_def Let_def)
  then have "fold ?F adjacentCells 0 = fold ?G adjacentCells 0"
    by (rule arg_cong [where f = "\<lambda>h. fold h adjacentCells 0"])
  also have "\<dots> = length (filter (mineAtOffset sz b row col) adjacentCells)"
    by (simp only: fold_count add_0)
  finally show ?thesis
    unfolding countAdjacent_def .
qed

lemma countAdjacent_cong:
  assumes "\<forall>r < sz. \<forall>k < sz. mine (b' ! r ! k) = mine (b ! r ! k)"
  shows "countAdjacent sz b' row col = countAdjacent sz b row col"
proof -
  have "mineAtOffset sz b' row col = mineAtOffset sz b row col"
    using assms by (auto simp: fun_eq_iff mineAtOffset_def)
  then show ?thesis by (simp add: countAdjacent_filter)
qed

lemma set_adjacentCells:
  "set adjacentCells = {(dx, dy). - 1 \<le> dx \<and> dx \<le> 1 \<and> - 1 \<le> dy \<and> dy \<le> 1 \<and> (dx, dy) \<noteq> (0, 0)}"
proof -
  have "dx = - 1 \<or> dx = 0 \<or> dx = 1" if "- 1 \<le> dx" "dx \<le> 1" for dx :: int
    using that by arith
  then show ?thesis
    unfolding adjacentCells_def by auto
qed

lemma distinct_adjacentCells: "distinct adjacentCells"
  by (simp add: adjacentCells_def)

lemma set_mooreMines:
  "set (mooreMines sz b row col) =
     {(r, k). r < sz \<and> k < sz \<and> (r, k) \<noteq> (row, col)
        \<and> r \<le> row + 1 \<and> row \<le> r + 1 \<and> k \<le> col + 1 \<and> col \<le> k + 1
        \<and> mine (b ! r ! k)}"
  by (auto simp: mooreMines_def)

lemma distinct_mooreMines: "distinct (mooreMines sz b row col)"
  by (simp add: mooreMines_def distinct_product)

lemma countAdjacent_mooreMines:
  "countAdjacent sz b row col = length (mooreMines sz b row col)"
proof -
  let ?f = "\<lambda>(dx, dy). (nat (int row + dx), nat (int col + dy))"
  let ?A = "set (filter (mineAtOffset sz b row col) adjacentCells)"
  have inj: "inj_on ?f ?A"
    by (auto simp: inj_on_def mineAtOffset_def)
  have img: "?f ` ?A = set (mooreMines sz b row col)"
  proof (intro set_eqI iffI)
    fix p assume "p \<in> ?f ` ?A"
    then obtain dx dy where "(dx, dy) \<in> set adjacentCells" "mineAtOffset sz b row col (dx, dy)"
      "p = (nat (int row + dx), nat (int col + dy))"
      by auto
    then show "p \<in> set (mooreMines sz b row col)"
      by (auto simp: set_adjacentCells mineAtOffset_def set_mooreMines)
  next
    fix p assume p: "p \<in> set (mooreMines sz b row col)"
    obtain r k where rk: "p = (r, k)" by (cases p)
    let ?dx = "int r - int row" and ?dy = "int k - int col"
    from p rk have "(?dx, ?dy) \<in> set adjacentCells"
      by (auto simp: set_adjacentCells set_mooreMines)
    moreover from p rk have "mineAtOffset sz b row col (?dx, ?dy)"
      by (simp add: mineAtOffset_def set_mooreMines)
    ultimately have mem: "(?dx, ?dy) \<in> ?A"
      by simp
    have "p = ?f (?dx, ?dy)"
      using rk by simp
    then show "p \<in> ?f ` ?A"
      using mem by (rule image_eqI)
  qed
  have "countAdjacent sz b row col = card ?A"
    by (simp add: countAdjacent_filter distinct_card [symmetric] distinct_adjacentCells)
  also have "\<dots> = card (?f ` ?A)"
    by (rule card_image [OF inj, symmetric])
  also have "\<dots> = length (mooreMines sz b row col)"
    by (simp only: img distinct_card [OF distinct_mooreMines])
  finally show ?thesis .
qed

lemma countAdjacent_le: "countAdjacent sz b row col \<le> 8"
proof -
  have "length (filter (mineAtOffset sz b row col) adjacentCells) \<le> length adjacentCells"
    by (rule length_filter_le)
  then show ?thesis
    by (simp add: countAdjacent_filter adjacentCells_def)
qed

lemma isGrid_calcCell: "isGrid sz b \<Longrightarrow> isGrid sz (calcCell sz b row col)"
  by (simp add: calcCell_def isGrid_setCell)

lemma nth_calcCell:
  assumes "isGrid sz b" and "r < sz" and "k < sz"
  shows "calcCell sz b row col ! r ! k =
           (if r = row \<and> k = col \<and> \<not> mine (b ! r ! k)
            then (b ! r ! k)\<lparr>adjacentMines := countAdjacent sz b r k\<rparr> else b ! r ! k)"
  using assms by (auto simp: calcCell_def isGrid_iff nth_setCell)

lemma adjacentDone_init: "isGrid sz b \<Longrightarrow> adjacentDone sz b {} b"
  by (simp add: adjacentDone_def)

lemma adjacentDone_mine:
  "adjacentDone sz b ps b' \<Longrightarrow> r < sz \<Longrightarrow> k < sz \<Longrightarrow> mine (b' ! r ! k) = mine (b ! r ! k)"
  by (simp add: adjacentDone_def)

lemma adjacentDone_calcCell:
  assumes "adjacentDone sz b ps b'" and "row < sz" and "col < sz"
  shows "adjacentDone sz b (insert (row, col) ps) (calcCell sz b' row col)"
proof -
  from assms(1) have g: "isGrid sz b'" by (simp add: adjacentDone_def)
  have cnt: "countAdjacent sz b' row col = countAdjacent sz b row col"
    by (rule countAdjacent_cong) (simp add: adjacentDone_mine [OF assms(1)])
  show ?thesis
    unfolding adjacentDone_def
  proof (intro conjI allI impI)
    show "isGrid sz (calcCell sz b' row col)"
      using g by (rule isGrid_calcCell)
  next
    fix r k assume rk: "r < sz" "k < sz"
    from assms(1) rk have old: "b' ! r ! k =
        (if (r, k) \<in> ps \<and> \<not> mine (b ! r ! k)
         then (b ! r ! k)\<lparr>adjacentMines := countAdjacent sz b r k\<rparr> else b ! r ! k)"
      by (simp add: adjacentDone_def)
    show "calcCell sz b' row col ! r ! k =
        (if (r, k) \<in> insert (row, col) ps \<and> \<not> mine (b ! r ! k)
         then (b ! r ! k)\<lparr>adjacentMines := countAdjacent sz b r k\<rparr> else b ! r ! k)"
      unfolding nth_calcCell [OF g rk]
      using old cnt adjacentDone_mine [OF assms(1) rk] by auto
  qed
qed

lemma adjacentDone_cols:
  assumes "adjacentDone sz b ps b'" and "row < sz" and "\<forall>col \<in> set cols. col < sz"
  shows "adjacentDone sz b (ps \<union> {row} \<times> set cols)
           (fold (\<lambda>col b2. calcCell sz b2 row col) cols b')"
  using assms
proof (induction cols arbitrary: ps b')
  case Nil
  then show ?case by simp
next
  case (Cons col cols)
  from Cons.prems have "adjacentDone sz b (insert (row, col) ps) (calcCell sz b' row col)"
    by (intro adjacentDone_calcCell) simp_all
  from Cons.IH [OF this Cons.prems(2)] Cons.prems(3)
  have "adjacentDone sz b (insert (row, col) ps \<union> {row} \<times> set cols)
          (fold (\<lambda>col b2. calcCell sz b2 row col) cols (calcCell sz b' row col))"
    by simp
  moreover have "insert (row, col) ps \<union> {row} \<times> set cols = ps \<union> {row} \<times> set (col # cols)"
    by auto
  ultimately show ?case by simp
qed

lemma adjacentDone_rows:
  assumes "adjacentDone sz b ps b'" and "\<forall>row \<in> set rows. row < sz"
  shows "adjacentDone sz b (ps \<union> set rows \<times> {..<sz})
           (fold (\<lambda>row b1. fold (\<lambda>col b2. calcCell sz b2 row col) [0..<sz] b1) rows b')"
  using assms
proof (induction rows arbitrary: ps b')
  case Nil
  then show ?case by simp
next
  case (Cons row rows)
  from Cons.prems have
    "adjacentDone sz b (ps \<union> {row} \<times> set [0..<sz])
       (fold (\<lambda>col b2. calcCell sz b2 row col) [0..<sz] b')"
    by (intro adjacentDone_cols) simp_all
  from Cons.IH [OF this] Cons.prems(2)
  have "adjacentDone sz b (ps \<union> {row} \<times> set [0..<sz] \<union> set rows \<times> {..<sz})
          (fold (\<lambda>row b1. fold (\<lambda>col b2. calcCell sz b2 row col) [0..<sz] b1) rows
             (fold (\<lambda>col b2. calcCell sz b2 row col) [0..<sz] b'))"
    by simp
  moreover have "ps \<union> {row} \<times> set [0..<sz] \<union> set rows \<times> {..<sz}
                   = ps \<union> set (row # rows) \<times> {..<sz}"
    by auto
  ultimately show ?case by simp
qed

lemma calcAdjacentMines_grid: "isGrid sz b \<Longrightarrow> isGrid sz (calcAdjacentMines sz b)"
  using adjacentDone_rows [OF adjacentDone_init, of sz b "[0..<sz]"]
  by (simp add: calcAdjacentMines_def adjacentDone_def)

lemma nth_calcAdjacentMines:
  assumes "isGrid sz b" and "r < sz" and "k < sz"
  shows "calcAdjacentMines sz b ! r ! k =
           (if mine (b ! r ! k) then b ! r ! k
            else (b ! r ! k)\<lparr>adjacentMines := countAdjacent sz b r k\<rparr>)"
  using adjacentDone_rows [OF adjacentDone_init [OF assms(1)], of "[0..<sz]"] assms(2,3)
  by (simp add: calcAdjacentMines_def adjacentDone_def)

section \<open>Generated boards\<close>

lemma generateBoard_Inr:
  "generateBoard sz mines draws = Some (Inr b) \<longleftrightarrow>
     (\<exists>b0 placed. placeMines mines draws (emptyBoard sz) 0 [] = Some (Inr (b0, placed))
        \<and> b = calcAdjacentMines sz b0)"
  by (auto simp: generateBoard_def split: option.splits sum.splits)

lemma everyCell_grid:
  "isGrid sz b \<Longrightarrow> everyCell P b \<longleftrightarrow> (\<forall>r < sz. \<forall>k < sz. P (b ! r ! k))"
  by (auto simp: everyCell_def isGrid_iff)

lemma length_filter_map_cong:
  "map f xs = map f ys \<Longrightarrow> length (filter f xs) = length (filter f ys)"
proof (induction xs arbitrary: ys)
  case Nil
  then show ?case by simp
next
  case (Cons x xs)
  then show ?case by (cases ys) auto
qed

lemma countMines_cong:
  assumes "isGrid sz b" and "isGrid sz b'"
    and "\<forall>r < sz. \<forall>k < sz. mine (b' ! r ! k) = mine (b ! r ! k)"
  shows "countMines b' = countMines b"
proof -
  have "map (map mine) b' = map (map mine) b"
    using assms by (auto simp: isGrid_iff intro!: nth_equalityI)
  then have "map mine (concat b') = map mine (concat b)"
    by (simp add: map_concat)
  then show ?thesis
    unfolding countMines_def by (rule length_filter_map_cong)
qed

lemma generateBoard_result:
  assumes "generateBoard sz mines draws = Some (Inr b)"
  obtains b0 placed where
    "placeMines mines draws (emptyBoard sz) 0 [] = Some (Inr (b0, placed))"
    "placeInv sz b0 (length placed) placed" "int (length placed) = max mines 0"
    "isGrid sz b"
    "\<And>r k. r < sz \<Longrightarrow> k < sz \<Longrightarrow> b ! r ! k =
        (if mine (b0 ! r ! k) then b0 ! r ! k
         else (b0 ! r ! k)\<lparr>adjacentMines := countAdjacent sz b0 r k\<rparr>)"
proof -
  from assms obtain b0 placed where
    pm: "placeMines mines draws (emptyBoard sz) 0 [] = Some (Inr (b0, placed))"
    and b: "b = calcAdjacentMines sz b0"
    by (auto simp: generateBoard_Inr)
  from placeMines_result [OF placeInv_emptyBoard pm]
  have inv: "placeInv sz b0 (length placed) placed" and len: "int (length placed) = max mines 0"
    by simp_all
  from inv have g: "isGrid sz b0" by (simp add: placeInv_def)
  show ?thesis
    using that [OF pm inv len] calcAdjacentMines_grid [OF g] nth_calcAdjacentMines [OF g] b
    by simp
qed

lemma generateBoard_fresh:
  assumes "generateBoard sz mines draws = Some (Inr b)"
  shows "isGrid sz b \<and> everyCell (\<lambda>c. \<not> revealed c \<and> \<not> flagged c) b
           \<and> int (countMines b) = max mines 0"
  using assms
proof (cases rule: generateBoard_result)
  case (1 b0 placed)
  from 1(2) have g0: "isGrid sz b0"
    and e0: "everyCell (\<lambda>c. \<not> revealed c \<and> \<not> flagged c \<and> adjacentMines c = 0) b0"
    and c0: "countMines b0 = length placed"
    by (simp_all add: placeInv_def)
  from e0 have "\<forall>r < sz. \<forall>k < sz. \<not> revealed (b0 ! r ! k) \<and> \<not> flagged (b0 ! r ! k)"
    by (simp add: everyCell_grid [OF g0])
  then have "everyCell (\<lambda>c. \<not> revealed c \<and> \<not> flagged c) b"
    by (simp add: everyCell_grid [OF 1(4)] 1(5))
  moreover have "countMines b = countMines b0"
    by (rule countMines_cong [OF g0 1(4)]) (simp add: 1(5))
  ultimately show ?thesis
    using 1(3,4) c0 by simp
qed

lemma placeInv_full:
  assumes "placeInv sz b (sz * sz) placed"
  shows "everyCell mine b"
proof -
  from assms have "set placed \<subseteq> {..<sz} \<times> {..<sz}" and "card (set placed) = sz * sz"
    by (simp_all add: placeInv_def distinct_card)
  then have "set placed = {..<sz} \<times> {..<sz}"
    by (intro card_subset_eq) simp_all
  with assms show ?thesis
    by (simp add: placeInv_def everyCell_grid [of sz])
qed

lemma initialState_Inr:
  "initialState draws = Some (Inr s) \<longleftrightarrow>
     (\<exists>b. generateBoard BOARD_SIZE TOTAL_MINES draws = Some (Inr b) \<and> s = newGame b)"
  by (auto simp: initialState_def split: option.splits sum.splits)

lemma gameInv_initialState:
  assumes "initialState draws = Some (Inr s)"
  shows "gameInv s"
proof -
  from assms obtain b where gen: "generateBoard BOARD_SIZE TOTAL_MINES draws = Some (Inr b)"
    and s: "s = newGame b"
    by (auto simp: initialState_Inr)
  from generateBoard_fresh [OF gen] have "everyCell (\<lambda>c. \<not> revealed c) b"
    by (simp add: everyCell_def)
  with s show ?thesis by (simp add: gameInv_newGame)
qed

lemma setCell_restore:
  "r < length b \<Longrightarrow> setCell (setCell b r k c) r k (b ! r ! k) = b"
  by (simp add: setCell_def)

lemma generateBoard_size_0:
  "generateBoard 0 0 ds = Some (Inr [])"
  "0 < m \<Longrightarrow> generateBoard 0 m ((r, c) # ds) = Some (Inl TypeError)"
proof -
  show "generateBoard 0 0 ds = Some (Inr [])"
    by (cases ds) (auto simp: generateBoard_def emptyBoard_def calcAdjacentMines_def)
  show "generateBoard 0 m ((r, c) # ds) = Some (Inl TypeError)" if "0 < m"
    using that by (simp add: generateBoard_def emptyBoard_def cellAt_def)
qed

section \<open>The claims\<close>

text \<open>
  C1. In \<^verbatim>\<open>Playing\<close>, on a cell that is neither revealed nor flagged,
  \<open>revealCell\<close> returns a state in which that cell is revealed. If the cell is a
  mine the game is over and \<open>gameWon\<close> stays false, whatever the board looks like:
  the win condition is not evaluated. Otherwise the game is not over, and it is won
  exactly when every cell of the new board is revealed or a mine.
\<close>

theorem revealCell_reveals_and_decides:
  assumes "\<not> gameOver s" and "\<not> gameWon s"
    and "cellAt (board s) row col = Inr c" and "\<not> revealed c" and "\<not> flagged c"
  shows "\<exists>s'. revealCell s row col = Inr s'
           \<and> cellAt (board s') row col = Inr (c\<lparr>revealed := True\<rparr>)
           \<and> flags s' = flags s
           \<and> (if mine c then gameOver s' \<and> \<not> gameWon s'
               else \<not> gameOver s'
                 \<and> (gameWon s' \<longleftrightarrow> everyCell (\<lambda>cell. revealed cell \<or> mine cell) (board s')))"
proof -
  from assms(1,2) have "playing s" by (simp add: playing_def)
  from revealCell_playing [OF this assms(3-5)] assms(1,2,3) show ?thesis
    by (simp add: cellAt_setCell)
qed

theorem revealCell_reveals_and_decides_witness:
  "\<not> gameOver game2Last \<and> \<not> gameWon game2Last
   \<and> cellAt (board game2Last) 1 1 = Inr (emptyCell\<lparr>adjacentMines := 1\<rparr>)
   \<and> \<not> revealed (emptyCell\<lparr>adjacentMines := 1\<rparr>) \<and> \<not> flagged (emptyCell\<lparr>adjacentMines := 1\<rparr>)
   \<and> revealCell game2Last 1 1 = Inr game2Won
   \<and> cellAt (board game2Won) 1 1 = Inr (emptyCell\<lparr>adjacentMines := 1, revealed := True\<rparr>)
   \<and> \<not> gameOver game2Won \<and> gameWon game2Won
   \<and> everyCell (\<lambda>cell. revealed cell \<or> mine cell) (board game2Won)"
proof -
  have hyps: "\<not> gameOver game2Last" "\<not> gameWon game2Last"
    "cellAt (board game2Last) 1 1 = Inr (emptyCell\<lparr>adjacentMines := 1\<rparr>)"
    "\<not> revealed (emptyCell\<lparr>adjacentMines := 1\<rparr>)" "\<not> flagged (emptyCell\<lparr>adjacentMines := 1\<rparr>)"
    by (simp_all add: game2Last_def cellAt_def emptyCell_def)
  have res: "revealCell game2Last 1 1 = Inr game2Won"
    by code_simp
  have won: "gameWon game2Won"
    by (simp add: game2Won_def)
  from revealCell_reveals_and_decides [OF hyps] res hyps won show ?thesis
    by (auto simp: emptyCell_def)
qed

text \<open>
  C2. For a positive size and \<open>0 \<le> mineCount < size\<^sup>2\<close>: as soon as the random
  source has yielded \<open>mineCount\<close> distinct cells, \<open>generateBoard\<close> returns; and a
  board it returns is a \<open>size \<times> size\<close> grid with exactly \<open>mineCount\<close> mines, all
  cells neither revealed nor flagged. The placements made by the loop are pairwise
  distinct cells, \<open>mineCount\<close> of them, and they are exactly the mines of the board.
\<close>

theorem generateBoard_places_mines:
  assumes "0 < sz" and "0 \<le> mines" and "mines < int (sz * sz)"
  shows "(validDraws sz draws \<and> mines \<le> int (card (set draws))
            \<longrightarrow> (\<exists>b. generateBoard sz mines draws = Some (Inr b)))
       \<and> (\<forall>b. generateBoard sz mines draws = Some (Inr b) \<longrightarrow>
            isGrid sz b \<and> int (countMines b) = mines
            \<and> everyCell (\<lambda>c. \<not> revealed c \<and> \<not> flagged c) b
            \<and> (\<exists>b0 placed. placeMines mines draws (emptyBoard sz) 0 [] = Some (Inr (b0, placed))
                  \<and> distinct placed \<and> int (length placed) = mines
                  \<and> (\<forall>r < sz. \<forall>k < sz. mine (b ! r ! k) \<longleftrightarrow> (r, k) \<in> set placed)))"
proof (intro conjI allI impI)
  assume "validDraws sz draws \<and> mines \<le> int (card (set draws))"
  then have "\<exists>b0 placed. placeMines mines draws (emptyBoard sz) 0 [] = Some (Inr (b0, placed))"
    using assms(1) by (intro placeMines_returns [OF placeInv_emptyBoard]) simp_all
  then show "\<exists>b. generateBoard sz mines draws = Some (Inr b)"
    by (auto simp: generateBoard_Inr)
next
  fix b assume gen: "generateBoard sz mines draws = Some (Inr b)"
  from generateBoard_fresh [OF gen] assms(2)
  show "isGrid sz b" "int (countMines b) = mines"
    "everyCell (\<lambda>c. \<not> revealed c \<and> \<not> flagged c) b"
    by simp_all
  from gen show "\<exists>b0 placed. placeMines mines draws (emptyBoard sz) 0 [] = Some (Inr (b0, placed))
                  \<and> distinct placed \<and> int (length placed) = mines
                  \<and> (\<forall>r < sz. \<forall>k < sz. mine (b ! r ! k) \<longleftrightarrow> (r, k) \<in> set placed)"
  proof (cases rule: generateBoard_result)
    case (1 b0 placed)
    from 1(2) have "distinct placed"
      and "\<forall>r < sz. \<forall>k < sz. mine (b0 ! r ! k) \<longleftrightarrow> (r, k) \<in> set placed"
      by (simp_all add: placeInv_def)
    with 1(1,3) assms(2) show ?thesis
      by (intro exI [of _ b0] exI [of _ placed]) (simp add: 1(5))
  qed
qed

theorem generateBoard_places_mines_witness:
  "(0::nat) < 2 \<and> (0::int) \<le> 2 \<and> (2::int) < int (2 * 2)
   \<and> validDraws 2 [(0, 0), (0, 0), (1, 1)]
   \<and> 2 \<le> int (card (set [(0::nat, 0::nat), (0, 0), (1, 1)]))
   \<and> generateBoard 2 2 [(0, 0), (0, 0), (1, 1)] = Some (Inr boardDiag)
   \<and> isGrid 2 boardDiag \<and> int (countMines boardDiag) = 2
   \<and> everyCell (\<lambda>c. \<not> revealed c \<and> \<not> flagged c) boardDiag"
proof -
  have sz: "(0::nat) < 2" "(0::int) \<le> 2" "(2::int) < int (2 * 2)"
    by simp_all
  have draws: "validDraws 2 [(0, 0), (0, 0), (1, 1)]"
    "2 \<le> int (card (set [(0::nat, 0::nat), (0, 0), (1, 1)]))"
    by (simp_all add: validDraws_def)
  have gen: "generateBoard 2 2 [(0, 0), (0, 0), (1, 1)] = Some (Inr boardDiag)"
    by code_simp
  from generateBoard_places_mines [OF sz, of "[(0, 0), (0, 0), (1, 1)]"] gen draws sz
  show ?thesis by simp
qed

text \<open>
  C3. On a board returned by \<open>generateBoard\<close>, a cell that is not a mine carries
  the number of its Moore neighbours on the grid that are mines (at most eight), and a
  cell that is a mine carries \<open>0\<close>.
\<close>

theorem generateBoard_adjacentMines:
  assumes "generateBoard sz mines draws = Some (Inr b)" and "row < sz" and "col < sz"
  shows "if mine (b ! row ! col) then adjacentMines (b ! row ! col) = 0
         else adjacentMines (b ! row ! col) = length (mooreMines sz b row col)
            \<and> adjacentMines (b ! row ! col) \<le> 8"
  using assms(1)
proof (cases rule: generateBoard_result)
  case (1 b0 placed)
  from 1(2) have g0: "isGrid sz b0"
    and e0: "everyCell (\<lambda>c. \<not> revealed c \<and> \<not> flagged c \<and> adjacentMines c = 0) b0"
    by (simp_all add: placeInv_def)
  from e0 assms(2,3) have zero: "adjacentMines (b0 ! row ! col) = 0"
    by (simp add: everyCell_grid [OF g0])
  have "\<forall>r < sz. \<forall>k < sz. mine (b ! r ! k) = mine (b0 ! r ! k)"
    by (simp add: 1(5))
  then have "countAdjacent sz b row col = countAdjacent sz b0 row col"
    by (rule countAdjacent_cong)
  then have "countAdjacent sz b0 row col = length (mooreMines sz b row col)"
    by (simp add: countAdjacent_mooreMines)
  with zero countAdjacent_le [of sz b0 row col] show ?thesis
    by (simp add: 1(5) [OF assms(2,3)])
qed

theorem generateBoard_adjacentMines_witness:
  "generateBoard 2 2 [(0, 0), (0, 0), (1, 1)] = Some (Inr boardDiag) \<and> (0::nat) < 2 \<and> (1::nat) < 2
   \<and> \<not> mine (boardDiag ! 0 ! 1)
   \<and> adjacentMines (boardDiag ! 0 ! 1) = length (mooreMines 2 boardDiag 0 1)
   \<and> length (mooreMines 2 boardDiag 0 1) = 2"
proof -
  have gen: "generateBoard 2 2 [(0, 0), (0, 0), (1, 1)] = Some (Inr boardDiag)"
    by code_simp
  have safe: "\<not> mine (boardDiag ! 0 ! 1)" "adjacentMines (boardDiag ! 0 ! 1) = 2"
    by (simp_all add: boardDiag_def emptyCell_def)
  from generateBoard_adjacentMines [OF gen, of 0 1] gen safe show ?thesis
    by simp
qed

text \<open>
  C4. A call of \<open>revealCell\<close> that returns leaves every cell other than the
  targeted one exactly as it was, its \<open>revealed\<close> flag included; nothing spreads to
  the neighbours, whatever the count of the targeted cell. A call rejected by a guard
  (a terminal state, a cell already revealed, a flagged cell) returns the state it was
  given. A call that throws has written nothing.
\<close>

theorem revealCell_changes_one_cell:
  "(revealCell s row col = Inr s' \<longrightarrow>
      (\<forall>r k. (r, k) \<noteq> (row, col) \<longrightarrow> cellAt (board s') r k = cellAt (board s) r k))
   \<and> (gameOver t \<or> gameWon t \<or> (\<exists>c. cellAt (board t) i j = Inr c \<and> (revealed c \<or> flagged c))
        \<longrightarrow> revealCell t i j = Inr t)"
proof (intro conjI impI allI)
  fix r k assume res: "revealCell s row col = Inr s'" and ne: "(r, k) \<noteq> (row, col)"
  from res show "cellAt (board s') r k = cellAt (board s) r k"
  proof (cases rule: revealCell_cases)
    case guard
    then show ?thesis by simp
  next
    case (reveal c)
    with ne show ?thesis by (auto simp: cellAt_setCell)
  qed
next
  assume "gameOver t \<or> gameWon t \<or> (\<exists>c. cellAt (board t) i j = Inr c \<and> (revealed c \<or> flagged c))"
  then show "revealCell t i j = Inr t" by (rule revealCell_guard)
qed

theorem revealCell_changes_one_cell_witness:
  "revealCell game0 0 0
     = Inr (game0\<lparr>board := [ [emptyCell\<lparr>revealed := True\<rparr>, emptyCell], [emptyCell, emptyCell] ]\<rparr>)
   \<and> adjacentMines emptyCell = 0
   \<and> cellAt [ [emptyCell\<lparr>revealed := True\<rparr>, emptyCell], [emptyCell, emptyCell] ] 0 1
        = cellAt (board game0) 0 1
   \<and> cellAt [ [emptyCell\<lparr>revealed := True\<rparr>, emptyCell], [emptyCell, emptyCell] ] 1 0
        = cellAt (board game0) 1 0
   \<and> cellAt [ [emptyCell\<lparr>revealed := True\<rparr>, emptyCell], [emptyCell, emptyCell] ] 1 1
        = cellAt (board game0) 1 1
   \<and> cellAt (board game2Last) 0 1 = Inr (emptyCell\<lparr>adjacentMines := 1, revealed := True\<rparr>)
   \<and> revealCell game2Last 0 1 = Inr game2Last"
proof -
  let ?s' = "game0\<lparr>board := [ [emptyCell\<lparr>revealed := True\<rparr>, emptyCell], [emptyCell, emptyCell] ]\<rparr>"
  have r: "revealCell game0 0 0 = Inr ?s'"
    by code_simp
  have g: "cellAt (board game2Last) 0 1 = Inr (emptyCell\<lparr>adjacentMines := 1, revealed := True\<rparr>)"
    by code_simp
  from revealCell_changes_one_cell [of game0 0 0 ?s' game2Last 0 1] r g
  show ?thesis
    by (auto simp: emptyCell_def)
qed

text \<open>
  C5. The guards are silent: in a terminal state \<open>revealCell\<close> and \<open>toggleFlag\<close>
  return the state unchanged, whatever the coordinates; on a revealed cell both return
  the state unchanged; on a flagged cell \<open>revealCell\<close> returns the state unchanged.
  None of these calls raises an error.
\<close>

theorem guards_are_silent:
  "(gameOver s \<or> gameWon s \<longrightarrow> revealCell s row col = Inr s \<and> toggleFlag s row col = Inr s)
   \<and> (cellAt (board t) i j = Inr c \<and> revealed c \<longrightarrow>
         revealCell t i j = Inr t \<and> toggleFlag t i j = Inr t)
   \<and> (cellAt (board u) m n = Inr d \<and> flagged d \<longrightarrow> revealCell u m n = Inr u)"
  by (auto simp: revealCell_guard toggleFlag_guard)

theorem guards_are_silent_witness:
  "gameOver game2Lost
   \<and> revealCell game2Lost 1 1 = Inr game2Lost \<and> toggleFlag game2Lost 1 1 = Inr game2Lost
   \<and> cellAt (board game2Last) 0 1 = Inr (emptyCell\<lparr>adjacentMines := 1, revealed := True\<rparr>)
   \<and> revealed (emptyCell\<lparr>adjacentMines := 1, revealed := True\<rparr>)
   \<and> revealCell game2Last 0 1 = Inr game2Last \<and> toggleFlag game2Last 0 1 = Inr game2Last
   \<and> cellAt (board game2Flagged) 0 1 = Inr (emptyCell\<lparr>adjacentMines := 1, flagged := True\<rparr>)
   \<and> flagged (emptyCell\<lparr>adjacentMines := 1, flagged := True\<rparr>)
   \<and> revealCell game2Flagged 0 1 = Inr game2Flagged"
proof -
  have h: "gameOver game2Lost"
    "cellAt (board game2Last) 0 1 = Inr (emptyCell\<lparr>adjacentMines := 1, revealed := True\<rparr>)"
    "cellAt (board game2Flagged) 0 1 = Inr (emptyCell\<lparr>adjacentMines := 1, flagged := True\<rparr>)"
    by (simp_all add: game2Lost_def game2Last_def game2Flagged_def cellAt_def)
  from guards_are_silent [of game2Lost 1 1 game2Last 0 1
      "emptyCell\<lparr>adjacentMines := 1, revealed := True\<rparr>" game2Flagged 0 1
      "emptyCell\<lparr>adjacentMines := 1, flagged := True\<rparr>"] h
  show ?thesis by simp
qed

text \<open>
  C6, as the code has it. A new game starts with \<open>flags = TOTAL_MINES\<close>, which is
  the number of mines on its board. In \<^verbatim>\<open>Playing\<close>, \<open>toggleFlag\<close> on an unrevealed
  cell flips the flag of the cell; the counter goes down by one when the cell becomes
  flagged and up by one when it becomes unflagged; a second \<open>toggleFlag\<close> on the same
  cell gives back the state the first one started from. The only way to act on a
  flagged cell is this toggle, which removes the flag: it is not a no-op, as the
  example after the theorem shows.
\<close>

theorem toggleFlag_accounting:
  "(initialState draws = Some (Inr s0) \<longrightarrow>
      flags s0 = TOTAL_MINES \<and> int (countMines (board s0)) = TOTAL_MINES)
   \<and> (\<not> gameOver s \<and> \<not> gameWon s \<and> cellAt (board s) row col = Inr c \<and> \<not> revealed c \<longrightarrow>
        (\<exists>s1. toggleFlag s row col = Inr s1
           \<and> cellAt (board s1) row col = Inr (c\<lparr>flagged := \<not> flagged c\<rparr>)
           \<and> flags s1 = (if flagged c then flags s + 1 else flags s - 1)
           \<and> toggleFlag s1 row col = Inr s))"
proof (intro conjI impI)
  assume "initialState draws = Some (Inr s0)"
  then obtain b where gen: "generateBoard BOARD_SIZE TOTAL_MINES draws = Some (Inr b)"
    and s: "s0 = newGame b"
    by (auto simp: initialState_Inr)
  from generateBoard_fresh [OF gen] s
  show "flags s0 = TOTAL_MINES" "int (countMines (board s0)) = TOTAL_MINES"
    by (simp_all add: newGame_def TOTAL_MINES_def)
next
  assume h: "\<not> gameOver s \<and> \<not> gameWon s \<and> cellAt (board s) row col = Inr c \<and> \<not> revealed c"
  then have p: "playing s" and at: "cellAt (board s) row col = Inr c" and nr: "\<not> revealed c"
    by (simp_all add: playing_def)
  let ?c' = "c\<lparr>flagged := \<not> flagged c\<rparr>"
  let ?s1 = "s\<lparr>board := setCell (board s) (nat row) (nat col) ?c',
               flags := (if flagged c then flags s + 1 else flags s - 1)\<rparr>"
  have one: "toggleFlag s row col = Inr ?s1"
    by (rule toggleFlag_playing [OF p at nr])
  have at1: "cellAt (board ?s1) row col = Inr ?c'"
    by (simp add: cellAt_setCell [OF at])
  from at have rc: "nat row < length (board s)" "c = board s ! nat row ! nat col"
    by (simp_all add: cellAt_Inr_iff)
  have p1: "playing ?s1" using p by (simp add: playing_def)
  have nr1: "\<not> revealed ?c'" using nr by simp
  have "toggleFlag ?s1 row col = Inr s"
    unfolding toggleFlag_playing [OF p1 at1 nr1]
    using rc by (simp add: setCell_restore)
  with one at1 show "\<exists>s1. toggleFlag s row col = Inr s1
           \<and> cellAt (board s1) row col = Inr (c\<lparr>flagged := \<not> flagged c\<rparr>)
           \<and> flags s1 = (if flagged c then flags s + 1 else flags s - 1)
           \<and> toggleFlag s1 row col = Inr s"
    by (intro exI [of _ ?s1]) simp
qed

theorem toggleFlag_accounting_witness:
  "\<exists>s0. initialState demoDraws = Some (Inr s0)
      \<and> flags s0 = TOTAL_MINES \<and> int (countMines (board s0)) = TOTAL_MINES
      \<and> \<not> gameOver game2 \<and> \<not> gameWon game2
      \<and> cellAt (board game2) 0 1 = Inr (emptyCell\<lparr>adjacentMines := 1\<rparr>)
      \<and> \<not> revealed (emptyCell\<lparr>adjacentMines := 1\<rparr>)
      \<and> toggleFlag game2 0 1 = Inr game2Flagged
      \<and> flags game2Flagged = flags game2 - 1
      \<and> toggleFlag game2Flagged 0 1 = Inr game2"
proof -
  have "case initialState demoDraws of Some (Inr s0) \<Rightarrow> True | _ \<Rightarrow> False"
    by code_simp
  then obtain s0 where init: "initialState demoDraws = Some (Inr s0)"
    by (auto split: option.splits sum.splits)
  have h: "\<not> gameOver game2" "\<not> gameWon game2"
    "cellAt (board game2) 0 1 = Inr (emptyCell\<lparr>adjacentMines := 1\<rparr>)"
    "\<not> revealed (emptyCell\<lparr>adjacentMines := 1\<rparr>)"
    by (simp_all add: game2_def board2_def cellAt_def emptyCell_def)
  have t: "toggleFlag game2 0 1 = Inr game2Flagged"
    by code_simp
  have f: "flags game2Flagged = flags game2 - 1"
    by (simp add: game2_def game2Flagged_def)
  from toggleFlag_accounting [of demoDraws s0 game2 0 1 "emptyCell\<lparr>adjacentMines := 1\<rparr>"]
    init h t f
  show ?thesis by auto
qed

theorem toggleFlag_accounting_counterexample:
  "\<not> gameOver game2Flagged \<and> \<not> gameWon game2Flagged
   \<and> cellAt (board game2Flagged) 0 1 = Inr (emptyCell\<lparr>adjacentMines := 1, flagged := True\<rparr>)
   \<and> toggleFlag game2Flagged 0 1 = Inr game2
   \<and> game2 \<noteq> game2Flagged
   \<and> flags game2 = flags game2Flagged + 1"
  by (simp add: game2_def game2Flagged_def board2_def toggleFlag_def cellAt_def setCell_def
      emptyCell_def Let_def)

text \<open>
  C7. In a game started from a generated board, after any number \<open>n\<close> of the actions
  of any sequence of \<open>revealCell\<close> and \<open>toggleFlag\<close> calls, \<open>gameOver\<close> and
  \<open>gameWon\<close> are not both true.
\<close>

theorem terminal_flags_exclusive:
  assumes "initialState draws = Some (Inr s0)"
  shows "\<not> (gameOver (run s0 (take n acts)) \<and> gameWon (run s0 (take n acts)))"
  using gameInv_run [OF gameInv_initialState [OF assms], of "take n acts"]
  by (simp add: gameInv_def)

theorem terminal_flags_exclusive_witness:
  "\<exists>s0. initialState demoDraws = Some (Inr s0)
      \<and> gameWon (run s0 (take 86 (demoActs @ [Reveal 0 0])))
      \<and> \<not> gameOver (run s0 (take 86 (demoActs @ [Reveal 0 0])))"
proof -
  have "case initialState demoDraws of
          Some (Inr s0) \<Rightarrow> gameWon (run s0 (take 86 (demoActs @ [Reveal 0 0])))
        | _ \<Rightarrow> False"
    by code_simp
  then obtain s0 where init: "initialState demoDraws = Some (Inr s0)"
    and won: "gameWon (run s0 (take 86 (demoActs @ [Reveal 0 0])))"
    by (auto split: option.splits sum.splits)
  from terminal_flags_exclusive [OF init, of 86 "demoActs @ [Reveal 0 0]"] init won
  show ?thesis by blast
qed

text \<open>
  C8, as the code has it. \<open>generateBoard\<close> makes no check of its arguments and
  raises no error on a grid of positive size. With more mines asked for than there are
  cells, the placement loop is still running after any number of draws: it never
  returns. With exactly as many mines as cells it returns once every cell has been
  drawn, and the board it returns has a mine in every cell. On a grid of size \<open>0\<close>
  it returns the empty board when no mine is asked for, and otherwise the first
  iteration of the loop throws a \<^verbatim>\<open>TypeError\<close>.
\<close>

theorem generateBoard_does_not_validate:
  assumes "0 < sz" and "int (sz * sz) \<le> mines" and "validDraws sz draws"
  shows "(\<forall>e. generateBoard sz mines draws \<noteq> Some (Inl e))
       \<and> (int (sz * sz) < mines \<longrightarrow> generateBoard sz mines draws = None)
       \<and> (mines = int (sz * sz) \<longrightarrow>
            ({..<sz} \<times> {..<sz} \<subseteq> set draws \<longrightarrow> (\<exists>b. generateBoard sz mines draws = Some (Inr b)))
            \<and> (\<forall>b. generateBoard sz mines draws = Some (Inr b) \<longrightarrow> isGrid sz b \<and> everyCell mine b))
       \<and> generateBoard 0 0 ds = Some (Inr [])
       \<and> (0 < m \<longrightarrow> generateBoard 0 m ((r, c) # ds) = Some (Inl TypeError))"
proof (intro conjI allI impI)
  show "generateBoard 0 0 ds = Some (Inr [])"
    by (rule generateBoard_size_0)
next
  assume "0 < m"
  then show "generateBoard 0 m ((r, c) # ds) = Some (Inl TypeError)"
    by (rule generateBoard_size_0)
next
  fix e
  from placeMines_no_error [OF placeInv_emptyBoard assms(1,3), of mines e]
  show "generateBoard sz mines draws \<noteq> Some (Inl e)"
    by (auto simp: generateBoard_def split: option.splits sum.splits)
next
  assume "int (sz * sz) < mines"
  from placeMines_diverges [OF placeInv_emptyBoard assms(1,3) this]
  show "generateBoard sz mines draws = None"
    by (simp add: generateBoard_def)
next
  assume m: "mines = int (sz * sz)" and all: "{..<sz} \<times> {..<sz} \<subseteq> set draws"
  have "card ({..<sz} \<times> {..<sz}) \<le> card (set draws)"
    using all by (intro card_mono) simp_all
  then have "sz * sz \<le> card (set draws)"
    by simp
  then have "int (sz * sz) \<le> int (card (set draws))"
    by (simp only: of_nat_le_iff)
  with m have "mines \<le> int 0 + int (card (set draws - set []))"
    by simp
  from placeMines_returns [OF placeInv_emptyBoard assms(1,3) this]
  show "\<exists>b. generateBoard sz mines draws = Some (Inr b)"
    by (auto simp: generateBoard_Inr)
next
  fix b assume m: "mines = int (sz * sz)" and gen: "generateBoard sz mines draws = Some (Inr b)"
  from gen show "isGrid sz b"
    by (simp add: generateBoard_fresh)
  from gen show "everyCell mine b"
  proof (cases rule: generateBoard_result)
    case (1 b0 placed)
    from 1(3) m have "length placed = sz * sz"
      by (simp only: max_def of_nat_eq_iff split: if_splits)
    with 1(2) have "everyCell mine b0"
      by (intro placeInv_full) simp
    moreover from 1(2) have "isGrid sz b0" by (simp add: placeInv_def)
    ultimately show ?thesis
      by (simp add: everyCell_grid [OF \<open>isGrid sz b\<close>] everyCell_grid [of sz b0] 1(5))
  qed
qed

theorem generateBoard_does_not_validate_counterexample:
  "(1::int) \<ge> int (1 * 1) \<and> generateBoard 1 1 [(0, 0)] = Some (Inr [ [emptyCell\<lparr>mine := True\<rparr>] ])"
  by (simp add: generateBoard_def cellAt_def setCell_def emptyBoard_def emptyCell_def
      calcAdjacentMines_def calcCell_def)

theorem generateBoard_does_not_validate_witness:
  "(0::nat) < 1 \<and> int (1 * 1) \<le> 2 \<and> validDraws 1 [(0, 0), (0, 0), (0, 0)]
   \<and> int (1 * 1) < 2 \<and> generateBoard 1 2 [(0, 0), (0, 0), (0, 0)] = None
   \<and> (0::int) < 1 \<and> generateBoard 0 1 [(0, 0)] = Some (Inl TypeError)"
proof -
  have h: "(0::nat) < 1" "int (1 * 1) \<le> 2" "validDraws 1 [(0, 0), (0, 0), (0, 0)]"
    by (simp_all add: validDraws_def)
  from generateBoard_does_not_validate [OF h, where m = 1 and r = 0 and c = 0 and ds = "[]"] h show ?thesis
    by simp
qed

text \<open>
  C9, as the code has it. On a \<open>size \<times> size\<close> board, \<open>revealCell\<close> and
  \<open>toggleFlag\<close> never throw for coordinates inside the grid. For coordinates
  outside it they return the state unchanged in a terminal state, where the first guard
  returns before the board is read, and throw a \<^verbatim>\<open>TypeError\<close> in \<^verbatim>\<open>Playing\<close>, where
  line 71 and line 90 read a property of \<^verbatim>\<open>undefined\<close>.
\<close>

theorem coordinates_are_not_checked:
  assumes "isGrid sz (board s)"
  shows "(0 \<le> row \<and> row < int sz \<and> 0 \<le> col \<and> col < int sz \<longrightarrow>
            (\<exists>s'. revealCell s row col = Inr s') \<and> (\<exists>s'. toggleFlag s row col = Inr s'))
       \<and> (\<not> (0 \<le> i \<and> i < int sz \<and> 0 \<le> j \<and> j < int sz) \<longrightarrow>
            (if gameOver s \<or> gameWon s
             then revealCell s i j = Inr s \<and> toggleFlag s i j = Inr s
             else revealCell s i j = Inl TypeError \<and> toggleFlag s i j = Inl TypeError))"
proof (intro conjI impI)
  assume "0 \<le> row \<and> row < int sz \<and> 0 \<le> col \<and> col < int sz"
  with assms obtain c where at: "cellAt (board s) row col = Inr c"
    by (auto simp: cellAt_def isGrid_iff)
  then show "\<exists>s'. revealCell s row col = Inr s'" "\<exists>s'. toggleFlag s row col = Inr s'"
    by (auto simp: revealCell_def toggleFlag_def Let_def)
next
  assume "\<not> (0 \<le> i \<and> i < int sz \<and> 0 \<le> j \<and> j < int sz)"
  with assms have "cellAt (board s) i j = Inl TypeError"
    by (auto simp: cellAt_def isGrid_iff)
  then show "if gameOver s \<or> gameWon s
             then revealCell s i j = Inr s \<and> toggleFlag s i j = Inr s
             else revealCell s i j = Inl TypeError \<and> toggleFlag s i j = Inl TypeError"
    by (simp add: revealCell_def toggleFlag_def)
qed

theorem coordinates_are_not_checked_witness:
  "isGrid 2 (board game2)
   \<and> (0::int) \<le> 1 \<and> (1::int) < int 2
   \<and> (\<exists>s'. revealCell game2 1 1 = Inr s') \<and> (\<exists>s'. toggleFlag game2 1 1 = Inr s')
   \<and> \<not> (0 \<le> (2::int) \<and> (2::int) < int 2 \<and> 0 \<le> (0::int) \<and> (0::int) < int 2)
   \<and> \<not> (gameOver game2 \<or> gameWon game2)
   \<and> revealCell game2 2 0 = Inl TypeError \<and> toggleFlag game2 2 0 = Inl TypeError"
proof -
  have g: "isGrid 2 (board game2)"
    by (simp add: isGrid_def game2_def board2_def)
  have p: "\<not> (gameOver game2 \<or> gameWon game2)"
    by (simp add: game2_def)
  from coordinates_are_not_checked [OF g, of 1 1 2 0] g p
  show ?thesis by simp
qed

theorem coordinates_are_not_checked_counterexample:
  "isGrid 2 (board game2) \<and> \<not> gameOver game2 \<and> \<not> gameWon game2
   \<and> revealCell game2 2 0 = Inl TypeError \<and> toggleFlag game2 0 (- 1) = Inl TypeError"
  by (simp add: isGrid_def game2_def board2_def revealCell_def toggleFlag_def cellAt_def)

text \<open>
  C10. In a game started from a generated board, after any sequence of \<open>revealCell\<close>
  and \<open>toggleFlag\<close> calls: if the game is won, no cell is both a mine and revealed.
\<close>

theorem won_game_has_no_revealed_mine:
  assumes "initialState draws = Some (Inr s0)" and "gameWon (run s0 acts)"
  shows "everyCell (\<lambda>c. \<not> (mine c \<and> revealed c)) (board (run s0 acts))"
  using gameInv_run [OF gameInv_initialState [OF assms(1)], of acts] assms(2)
  by (auto simp: gameInv_def noRevealedMine_def)

theorem won_game_has_no_revealed_mine_witness:
  "\<exists>s0. initialState demoDraws = Some (Inr s0) \<and> gameWon (run s0 demoActs)
      \<and> everyCell (\<lambda>c. \<not> (mine c \<and> revealed c)) (board (run s0 demoActs))"
proof -
  have "case initialState demoDraws of
          Some (Inr s0) \<Rightarrow> gameWon (run s0 demoActs)
        | _ \<Rightarrow> False"
    by code_simp
  then obtain s0 where init: "initialState demoDraws = Some (Inr s0)"
    and won: "gameWon (run s0 demoActs)"
    by (auto split: option.splits sum.splits)
  from won_game_has_no_revealed_mine [OF init won] init won
  show ?thesis by blast
qed

end
